theory Spec2Isabelle
  imports Main
begin

section \<open>Go slices over a heap of backing arrays\<close>

text \<open>
  The array utilities of \<^verbatim>\<open>aocutils.go\<close> work on Go slices. A slice is a header (a pointer
  into a backing array, a length and a capacity) that is passed by value, while the backing
  array is shared between every header that points into it. The heap is the list of the
  allocated arrays; an array's address is its position in that list. Go's \<^verbatim>\<open>int\<close> arguments
  are integers (they may be negative); lengths and capacities are naturals. The sums
  \<^verbatim>\<open>len(slice)-end+start\<close> and \<^verbatim>\<open>index+1\<close> are computed without wrap-around:
  the first is only computed once \<open>start\<close> and \<open>end\<close> have passed their bounds checks, so it
  lies between 0 and twice the length (taken to fit an \<^verbatim>\<open>int\<close>), and a wrapped
  \<^verbatim>\<open>index+1\<close> is negative and fails the bounds check that the unwrapped one fails.
\<close>

text \<open>The two run-time panics of Go's bounds checks: \<open>PanicIndex\<close> is
  \<^verbatim>\<open>index out of range\<close>, raised by an index expression \<^verbatim>\<open>s[i]\<close>; \<open>PanicSliceBounds\<close> is
  \<^verbatim>\<open>slice bounds out of range\<close>, raised by a slice expression \<^verbatim>\<open>s[lo:hi]\<close>. The code
  raises no error of its own: every failure is one of these two panics.\<close>

datatype panic = PanicIndex | PanicSliceBounds

type_synonym 'a heap = "'a list list"

record slice =
  ptr :: nat
  off :: nat
  len :: nat
  cap :: nat

text \<open>A header is well formed in a heap when its length is within its capacity and, unless
  the capacity is 0 (as it is for a nil slice, which has no array), its array is allocated and
  the capacity lies inside that array.\<close>

definition wf_slice :: "'a heap \<Rightarrow> slice \<Rightarrow> bool" where
  "wf_slice h s =
     (len s \<le> cap s \<and>
      (cap s = 0 \<or> ptr s < length h \<and> off s + cap s \<le> length (h ! ptr s)))"

text \<open>The elements a holder of the header \<open>s\<close> sees in the heap \<open>h\<close>.\<close>

definition elems :: "'a heap \<Rightarrow> slice \<Rightarrow> 'a list" where
  "elems h s = take (len s) (drop (off s) (h ! ptr s))"

text \<open>\<^verbatim>\<open>s[i]\<close> as a value.\<close>

definition index_read :: "'a heap \<Rightarrow> slice \<Rightarrow> int \<Rightarrow> panic + 'a" where
  "index_read h s i =
     (if 0 \<le> i \<and> i < int (len s) then Inr (h ! ptr s ! (off s + nat i))
      else Inl PanicIndex)"

text \<open>Writing the values \<open>vs\<close> into the backing array of \<open>s\<close>, from position \<open>i\<close> of \<open>s\<close> on.\<close>

definition write_at :: "slice \<Rightarrow> nat \<Rightarrow> 'a list \<Rightarrow> 'a heap \<Rightarrow> 'a heap" where
  "write_at s i vs h =
     h[ptr s := take (off s + i) (h ! ptr s) @ vs @ drop (off s + i + length vs) (h ! ptr s)]"

text \<open>\<^verbatim>\<open>s[i] = v\<close>.\<close>

definition index_write :: "slice \<Rightarrow> int \<Rightarrow> 'a \<Rightarrow> 'a heap \<Rightarrow> panic + 'a heap" where
  "index_write s i v h =
     (if 0 \<le> i \<and> i < int (len s) then Inr (write_at s (nat i) [v] h)
      else Inl PanicIndex)"

text \<open>\<^verbatim>\<open>s[lo:hi]\<close>: for a slice the upper bound is the capacity. \<^verbatim>\<open>s[lo:]\<close> is
  \<open>reslice s lo (len s)\<close> and \<^verbatim>\<open>s[:hi]\<close> is \<open>reslice s 0 hi\<close>.\<close>

definition reslice :: "slice \<Rightarrow> int \<Rightarrow> int \<Rightarrow> panic + slice" where
  "reslice s lo hi =
     (if 0 \<le> lo \<and> lo \<le> hi \<and> hi \<le> int (cap s)
      then Inr \<lparr>ptr = ptr s, off = off s + nat lo, len = nat (hi - lo), cap = cap s - nat lo\<rparr>
      else Inl PanicSliceBounds)"

text \<open>\<^verbatim>\<open>copy(dst, src)\<close> copies \<open>min (len dst) (len src)\<close> elements; the source is read
  before the destination is written, so overlapping slices are handled as Go does.\<close>

definition go_copy :: "slice \<Rightarrow> slice \<Rightarrow> 'a heap \<Rightarrow> 'a heap" where
  "go_copy dst src h = write_at dst 0 (take (min (len dst) (len src)) (elems h src)) h"

text \<open>\<^verbatim>\<open>append(s, vs...)\<close>: within the capacity the values are written behind the slice in
  its own backing array; otherwise a new array is allocated, which holds the old elements,
  the new ones and spare capacity filled with the zero value \<open>z\<close>. How much spare capacity
  Go's runtime adds is not fixed by the language: it is the parameter \<open>slack\<close>.\<close>

definition go_append :: "'a \<Rightarrow> (nat \<Rightarrow> nat) \<Rightarrow> slice \<Rightarrow> 'a list \<Rightarrow> 'a heap \<Rightarrow> slice \<times> 'a heap" where
  "go_append z slack s vs h =
     (if len s + length vs \<le> cap s
      then (s\<lparr>len := len s + length vs\<rparr>, write_at s (len s) vs h)
      else (\<lparr>ptr = length h, off = 0, len = len s + length vs,
              cap = len s + length vs + slack (cap s)\<rparr>,
            h @ [elems h s @ vs @ replicate (slack (cap s)) z]))"

text \<open>A composite literal \<^verbatim>\<open>[]T{...}\<close> allocates its own array.\<close>

definition literal :: "'a list \<Rightarrow> 'a heap \<Rightarrow> slice \<times> 'a heap" where
  "literal vs h = (\<lparr>ptr = length h, off = 0, len = length vs, cap = length vs\<rparr>, h @ [vs])"

section \<open>Array utilities\<close>

text \<open>The loop of \<^verbatim>\<open>Cut\<close>:
  \<^verbatim>\<open>for k, n := len(slice)-end+start, len(slice); k < n; k++ { slice[k] = *new(T) }\<close>.\<close>

function Cut_loop :: "'a \<Rightarrow> slice \<Rightarrow> int \<Rightarrow> int \<Rightarrow> 'a heap \<Rightarrow> (panic + unit) \<times> 'a heap" where
  "Cut_loop z s k n h =
     (if k < n
      then (case index_write s k z h of
              Inl p \<Rightarrow> (Inl p, h)
            | Inr h' \<Rightarrow> Cut_loop z s (k + 1) n h')
      else (Inr (), h))"
  by pat_completeness auto
termination
  by (relation "measure (\<lambda>(z, s, k, n, h). nat (n - k))") auto

declare Cut_loop.simps [simp del]

text \<open>Every operation returns its result (or the panic that stopped it) together with the
  heap it leaves behind.\<close>

definition Cut :: "'a \<Rightarrow> slice \<Rightarrow> int \<Rightarrow> int \<Rightarrow> 'a heap \<Rightarrow> (panic + slice) \<times> 'a heap" where
  "Cut z s start end h =
     (case reslice s start (int (len s)) of
        Inl p \<Rightarrow> (Inl p, h)
      | Inr dst \<Rightarrow>
     (case reslice s end (int (len s)) of
        Inl p \<Rightarrow> (Inl p, h)
      | Inr src \<Rightarrow>
     (case Cut_loop z s (int (len s) - end + start) (int (len s)) (go_copy dst src h) of
        (Inl p, h') \<Rightarrow> (Inl p, h')
      | (Inr u, h') \<Rightarrow>
     (case reslice s 0 (int (len s) - end + start) of
        Inl p \<Rightarrow> (Inl p, h')
      | Inr r \<Rightarrow> (Inr r, h')))))"

definition Delete :: "'a \<Rightarrow> slice \<Rightarrow> int \<Rightarrow> 'a heap \<Rightarrow> (panic + slice) \<times> 'a heap" where
  "Delete z s index h =
     (case reslice s index (int (len s)) of
        Inl p \<Rightarrow> (Inl p, h)
      | Inr dst \<Rightarrow>
     (case reslice s (index + 1) (int (len s)) of
        Inl p \<Rightarrow> (Inl p, h)
      | Inr src \<Rightarrow>
     (case index_write s (int (len s) - 1) z (go_copy dst src h) of
        Inl p \<Rightarrow> (Inl p, go_copy dst src h)
      | Inr h' \<Rightarrow>
     (case reslice s 0 (int (len s) - 1) of
        Inl p \<Rightarrow> (Inl p, h')
      | Inr r \<Rightarrow> (Inr r, h')))))"

definition Insert ::
  "'a \<Rightarrow> (nat \<Rightarrow> nat) \<Rightarrow> slice \<Rightarrow> 'a \<Rightarrow> int \<Rightarrow> 'a heap \<Rightarrow> (panic + slice) \<times> 'a heap" where
  "Insert z slack s element index h =
     (case go_append z slack s [z] h of (s1, h1) \<Rightarrow>
     (case reslice s1 (index + 1) (int (len s1)) of
        Inl p \<Rightarrow> (Inl p, h1)
      | Inr dst \<Rightarrow>
     (case reslice s1 index (int (len s1)) of
        Inl p \<Rightarrow> (Inl p, h1)
      | Inr src \<Rightarrow>
     (case index_write s1 index element (go_copy dst src h1) of
        Inl p \<Rightarrow> (Inl p, go_copy dst src h1)
      | Inr h' \<Rightarrow> (Inr s1, h')))))"

section \<open>Stack\<close>

text \<open>\<^verbatim>\<open>type Stack[T any] []T\<close>: a stack is a slice header. The four methods have value
  receivers, so each works on its own copy \<open>s\<close> of the caller's header and assigns the new
  header to that copy only; what reaches the caller is the heap. \<open>Push\<close> and \<open>Unshift\<close> return
  nothing, \<open>Pop\<close> and \<open>Shift\<close> return the element.\<close>

text \<open>\<open>Pop\<close> is \<^verbatim>\<open>element, s := s[len(s)-1], s[:len(s)-1]\<close> and \<open>Shift\<close> is
  \<^verbatim>\<open>element, s := s[0], s[1:]\<close>. Go fixes the order of function calls among the operands of
  an assignment, but not the order of an index expression and a slice expression, and each of
  the two can panic. The order is a parameter of the model: \<open>SliceFirst\<close> is the order of the
  code the Go compiler generates (the slice expression is evaluated before the index
  expression), \<open>IndexFirst\<close> is the order in which the operands are written.\<close>

datatype operand_order = IndexFirst | SliceFirst

definition Push :: "'a \<Rightarrow> (nat \<Rightarrow> nat) \<Rightarrow> slice \<Rightarrow> 'a \<Rightarrow> 'a heap \<Rightarrow> 'a heap" where
  "Push z slack s element h = (case go_append z slack s [element] h of (s', h') \<Rightarrow> h')"

definition Pop :: "operand_order \<Rightarrow> slice \<Rightarrow> 'a heap \<Rightarrow> (panic + 'a) \<times> 'a heap" where
  "Pop ord s h =
     (case ord of
        IndexFirst \<Rightarrow>
          (case index_read h s (int (len s) - 1) of
             Inl p \<Rightarrow> (Inl p, h)
           | Inr element \<Rightarrow>
          (case reslice s 0 (int (len s) - 1) of
             Inl p \<Rightarrow> (Inl p, h)
           | Inr s' \<Rightarrow> (Inr element, h)))
      | SliceFirst \<Rightarrow>
          (case reslice s 0 (int (len s) - 1) of
             Inl p \<Rightarrow> (Inl p, h)
           | Inr s' \<Rightarrow>
          (case index_read h s (int (len s) - 1) of
             Inl p \<Rightarrow> (Inl p, h)
           | Inr element \<Rightarrow> (Inr element, h))))"

definition Unshift :: "'a \<Rightarrow> (nat \<Rightarrow> nat) \<Rightarrow> slice \<Rightarrow> 'a \<Rightarrow> 'a heap \<Rightarrow> 'a heap" where
  "Unshift z slack s element h =
     (case literal [element] h of (lit, h1) \<Rightarrow>
     (case go_append z slack lit (elems h1 s) h1 of (s', h') \<Rightarrow> h'))"

definition Shift :: "operand_order \<Rightarrow> slice \<Rightarrow> 'a heap \<Rightarrow> (panic + 'a) \<times> 'a heap" where
  "Shift ord s h =
     (case ord of
        IndexFirst \<Rightarrow>
          (case index_read h s 0 of
             Inl p \<Rightarrow> (Inl p, h)
           | Inr element \<Rightarrow>
          (case reslice s 1 (int (len s)) of
             Inl p \<Rightarrow> (Inl p, h)
           | Inr s' \<Rightarrow> (Inr element, h)))
      | SliceFirst \<Rightarrow>
          (case reslice s 1 (int (len s)) of
             Inl p \<Rightarrow> (Inl p, h)
           | Inr s' \<Rightarrow>
          (case index_read h s 0 of
             Inl p \<Rightarrow> (Inl p, h)
           | Inr element \<Rightarrow> (Inr element, h))))"

section \<open>Grid\<close>

text \<open>\<^verbatim>\<open>type Grid[T any] [][]T\<close> and \<^verbatim>\<open>type Coordinate struct{ x, y int }\<close>. \<open>InBounds\<close> only
  reads lengths, so a grid is the list of its rows. \<^verbatim>\<open>&&\<close> evaluates its right operand only
  when the left one is true; \<^verbatim>\<open>grid[0]\<close> panics on a grid without rows.\<close>

type_synonym 'a Grid = "'a list list"

datatype Coordinate = Coordinate int int

definition row_at :: "'a Grid \<Rightarrow> nat \<Rightarrow> panic + 'a list" where
  "row_at grid i = (if i < length grid then Inr (grid ! i) else Inl PanicIndex)"

fun InBounds :: "'a Grid \<Rightarrow> Coordinate \<Rightarrow> panic + bool" where
  "InBounds grid (Coordinate x y) =
     (if y > 0 then
        (if x > 0 then
           (if y < int (length grid) then
              (case row_at grid 0 of
                 Inl p \<Rightarrow> Inl p
               | Inr row \<Rightarrow> Inr (x < int (length row)))
            else Inr False)
         else Inr False)
      else Inr False)"

section \<open>Trees\<close>

text \<open>\<^verbatim>\<open>TreeNode\<close> holds an element and two pointers that may be nil. The nodes are finite
  and acyclic, as the nodes of a tree are.\<close>

datatype 'a TreeNode =
  TreeNode (element: 'a) (firstChild: "'a TreeNode option") (nextSibling: "'a TreeNode option")

fun GetNodes :: "'a TreeNode \<Rightarrow> 'a TreeNode list" where
  "GetNodes (TreeNode e fc ns) =
     (let nodes = [];
          nodes = nodes @ [TreeNode e fc ns];
          nodes = (case ns of None \<Rightarrow> nodes | Some sib \<Rightarrow> nodes @ GetNodes sib);
          nodes = (case fc of None \<Rightarrow> nodes | Some child \<Rightarrow> nodes @ GetNodes child)
      in nodes)"

section \<open>Facts about slices\<close>

subsection \<open>Writing inside and behind the window of a slice\<close>

lemma window_split:
  assumes "o' + L \<le> length a"
  shows "\<exists>p q. a = p @ take L (drop o' a) @ q \<and> length p = o'"
proof -
  have "a = take o' a @ take L (drop o' a) @ drop L (drop o' a)"
    by (simp del: drop_drop)
  moreover have "length (take o' a) = o'" using assms by simp
  ultimately show ?thesis by blast
qed

lemma window_write:
  assumes "length p = o'" "i + length vs \<le> length m"
  shows "take (length m) (drop o' (take (o' + i) (p @ m @ q) @ vs @ drop (o' + i + length vs) (p @ m @ q)))
         = take i m @ vs @ drop (i + length vs) m"
  using assms by simp

lemma window_write_behind:
  assumes "length p = o'" "length m \<le> i"
  shows "take (length m) (drop o' (take (o' + i) (p @ m @ q) @ r)) = m"
  using assms by simp

lemma take_prefix: "length ys = k \<Longrightarrow> take k (ys @ zs) = ys"
  by simp

lemma length_elems: "wf_slice h s \<Longrightarrow> length (elems h s) = len s"
  by (auto simp add: wf_slice_def elems_def)

lemma wf_write_at:
  "wf_slice h s \<Longrightarrow> i + length vs \<le> cap s \<Longrightarrow> wf_slice (write_at s i vs h) s"
  by (auto simp add: wf_slice_def write_at_def)

lemma elems_write_at_inside:
  assumes "wf_slice h s" "i + length vs \<le> len s"
  shows "elems (write_at s i vs h) s =
         take i (elems h s) @ vs @ drop (i + length vs) (elems h s)"
proof (cases "cap s = 0")
  case True
  then have "len s = 0" using assms(1) by (simp add: wf_slice_def)
  then show ?thesis using assms(2) by (simp add: elems_def)
next
  case False
  let ?a = "h ! ptr s"
  have b: "off s + len s \<le> length ?a" and p: "ptr s < length h"
    using assms(1) False by (simp_all add: wf_slice_def)
  obtain p q where a: "?a = p @ elems h s @ q" and lp: "length p = off s"
    using window_split [OF b] unfolding elems_def by blast
  have lm: "length (elems h s) = len s"
    using assms(1) by (rule length_elems)
  have "elems (write_at s i vs h) s =
        take (length (elems h s)) (drop (off s)
          (take (off s + i) (p @ elems h s @ q) @ vs @ drop (off s + i + length vs) (p @ elems h s @ q)))"
    using p a lm by (simp add: elems_def write_at_def)
  also have "\<dots> = take i (elems h s) @ vs @ drop (i + length vs) (elems h s)"
    using assms(2) lm by (intro window_write [OF lp]) simp
  finally show ?thesis .
qed

lemma elems_write_at_outside:
  assumes "wf_slice h s" "len s \<le> i"
  shows "elems (write_at s i vs h) s = elems h s"
proof (cases "cap s = 0")
  case True
  then have "len s = 0" using assms(1) by (simp add: wf_slice_def)
  then show ?thesis by (simp add: elems_def)
next
  case False
  let ?a = "h ! ptr s"
  have b: "off s + len s \<le> length ?a" and p: "ptr s < length h"
    using assms(1) False by (simp_all add: wf_slice_def)
  obtain p q where a: "?a = p @ elems h s @ q" and lp: "length p = off s"
    using window_split [OF b] unfolding elems_def by blast
  have lm: "length (elems h s) = len s"
    using assms(1) by (rule length_elems)
  have "elems (write_at s i vs h) s =
        take (length (elems h s)) (drop (off s)
          (take (off s + i) (p @ elems h s @ q) @ (vs @ drop (off s + i + length vs) ?a)))"
    using p a lm by (simp add: elems_def write_at_def)
  also have "\<dots> = elems h s"
    using assms(2) lm by (intro window_write_behind [OF lp]) simp
  finally show ?thesis .
qed


subsection \<open>Slice expressions, copy and the loop of Cut\<close>

lemma reslice_tail:
  assumes "len s \<le> cap s" "a \<le> len s"
  shows "reslice s (int a) (int (len s)) =
         Inr \<lparr>ptr = ptr s, off = off s + a, len = len s - a, cap = cap s - a\<rparr>"
  using assms by (simp add: reslice_def nat_diff_distrib')

lemma reslice_head:
  assumes "k \<le> cap s"
  shows "reslice s 0 (int k) = Inr \<lparr>ptr = ptr s, off = off s, len = k, cap = cap s\<rparr>"
  using assms by (simp add: reslice_def)

lemma elems_tail:
  "elems h \<lparr>ptr = ptr s, off = off s + a, len = len s - a, cap = c\<rparr> = drop a (elems h s)"
  by (simp add: elems_def drop_take add.commute)

lemma elems_head:
  assumes "k \<le> len s"
  shows "elems h \<lparr>ptr = ptr s, off = off s, len = k, cap = c\<rparr> = take k (elems h s)"
  using assms by (simp add: elems_def min_def)

lemma go_copy_tails:
  "go_copy \<lparr>ptr = ptr s, off = off s + a, len = len s - a, cap = c\<rparr>
           \<lparr>ptr = ptr s, off = off s + b, len = len s - b, cap = d\<rparr> h
   = write_at s a (take (min (len s - a) (len s - b)) (drop b (elems h s))) h"
  unfolding go_copy_def elems_tail by (simp add: write_at_def)

lemma index_write_ok:
  assumes "k < len s"
  shows "index_write s (int k) v h = Inr (write_at s k [v] h)"
  using assms by (simp add: index_write_def)

lemma Cut_loop_done: "n \<le> k \<Longrightarrow> Cut_loop z s k n h = (Inr (), h)"
  by (simp add: Cut_loop.simps)

lemma Cut_loop_zero:
  assumes "wf_slice h s" "k \<le> len s"
  shows "\<exists>h'. Cut_loop z s (int k) (int (len s)) h = (Inr (), h') \<and> wf_slice h' s \<and>
              elems h' s = take k (elems h s) @ replicate (len s - k) z"
  using assms
proof (induction "len s - k" arbitrary: k h)
  case 0
  then show ?case by (simp add: Cut_loop_done length_elems)
next
  case (Suc d)
  let ?h1 = "write_at s k [z] h"
  have k: "k < len s" using Suc.hyps(2) by simp
  have c: "k + length [z] \<le> cap s" using k Suc.prems(1) by (simp add: wf_slice_def)
  have wf1: "wf_slice ?h1 s" using Suc.prems(1) c by (rule wf_write_at)
  have e1: "elems ?h1 s = take k (elems h s) @ [z] @ drop (k + 1) (elems h s)"
    using elems_write_at_inside [OF Suc.prems(1), of k "[z]"] k by simp
  have d: "d = len s - Suc k" using Suc.hyps(2) by simp
  obtain h' where r: "Cut_loop z s (int (Suc k)) (int (len s)) ?h1 = (Inr (), h')"
    and wf': "wf_slice h' s"
    and e': "elems h' s = take (Suc k) (elems ?h1 s) @ replicate (len s - Suc k) z"
    using Suc.hyps(1) [OF d wf1] k by auto
  have lk: "length (take k (elems h s)) = k"
    using k Suc.prems(1) by (simp add: length_elems)
  have "Cut_loop z s (int k) (int (len s)) h = Cut_loop z s (int k + 1) (int (len s)) ?h1"
    using k by (subst Cut_loop.simps) (simp add: index_write_ok)
  then have "Cut_loop z s (int k) (int (len s)) h = (Inr (), h')"
    using r by (simp add: add.commute)
  moreover have "elems h' s = take k (elems h s) @ replicate (len s - k) z"
  proof -
    have "take (Suc k) (elems ?h1 s) = take k (elems h s) @ [z]"
      unfolding e1 using lk by simp
    moreover have "[z] @ replicate (len s - Suc k) z = replicate (len s - k) z"
      using k by (simp add: Suc_diff_Suc replicate_Suc [symmetric] del: replicate_Suc)
    ultimately show ?thesis using e' by simp
  qed
  ultimately show ?case using wf' by blast
qed

subsection \<open>What Cut, Delete, append and Insert do within the contract\<close>

lemma Cut_nat:
  assumes "wf_slice h s" "a \<le> b" "b \<le> len s"
  shows "\<exists>r h'. Cut z s (int a) (int b) h = (Inr r, h') \<and>
                r = \<lparr>ptr = ptr s, off = off s, len = len s - b + a, cap = cap s\<rparr> \<and>
                len r = len s - (b - a) \<and>
                elems h' r = take a (elems h s) @ drop b (elems h s)"
proof -
  let ?xs = "elems h s"
  let ?k = "len s - b + a"
  let ?h1 = "write_at s a (drop b ?xs) h"
  have lc: "len s \<le> cap s" using assms(1) by (simp add: wf_slice_def)
  have lx: "length ?xs = len s" using assms(1) by (rule length_elems)
  have k: "?k \<le> len s" using assms by simp
  have ik: "int (len s) - int b + int a = int ?k" using assms by simp
  have cp: "take (min (len s - a) (len s - b)) (drop b ?xs) = drop b ?xs"
    using assms lx by simp
  have w: "a + length (drop b ?xs) \<le> len s" using assms lx by simp
  have wf1: "wf_slice ?h1 s"
    using assms(1) w lc by (intro wf_write_at) simp_all
  have e1: "elems ?h1 s = take a ?xs @ drop b ?xs @ drop (a + length (drop b ?xs)) ?xs"
    using assms(1) w by (rule elems_write_at_inside)
  obtain h2 where l: "Cut_loop z s (int ?k) (int (len s)) ?h1 = (Inr (), h2)"
    and e2: "elems h2 s = take ?k (elems ?h1 s) @ replicate (len s - ?k) z"
    using Cut_loop_zero [OF wf1 k] by blast
  have t: "take ?k (elems ?h1 s) = take a ?xs @ drop b ?xs"
    unfolding e1 using assms lx by simp
  let ?r = "\<lparr>ptr = ptr s, off = off s, len = ?k, cap = cap s\<rparr>"
  have r1: "reslice s (int a) (int (len s)) =
            Inr \<lparr>ptr = ptr s, off = off s + a, len = len s - a, cap = cap s - a\<rparr>"
    using lc assms by (intro reslice_tail) simp_all
  have r2: "reslice s (int b) (int (len s)) =
            Inr \<lparr>ptr = ptr s, off = off s + b, len = len s - b, cap = cap s - b\<rparr>"
    using lc assms by (intro reslice_tail) simp_all
  have l': "Cut_loop z s (int (len s) - int b + int a) (int (len s)) ?h1 = (Inr (), h2)"
    by (simp only: ik l)
  have r3: "reslice s 0 (int (len s) - int b + int a) = Inr ?r"
    using k lc by (simp only: ik) (intro reslice_head, simp)
  have g: "go_copy \<lparr>ptr = ptr s, off = off s + a, len = len s - a, cap = cap s - a\<rparr>
                   \<lparr>ptr = ptr s, off = off s + b, len = len s - b, cap = cap s - b\<rparr> h = ?h1"
    by (simp only: go_copy_tails cp)
  have "Cut z s (int a) (int b) h = (Inr ?r, h2)"
    by (simp only: Cut_def r1 r2 g l' r3 sum.case prod.case)
  moreover have "len ?r = len s - (b - a)" using assms by simp
  moreover have "elems h2 ?r = take a ?xs @ drop b ?xs"
  proof -
    have lt: "length (take a ?xs @ drop b ?xs) = ?k" using assms lx by simp
    have "elems h2 ?r = take ?k (elems h2 s)" by (rule elems_head [OF k])
    also have "\<dots> = take ?k ((take a ?xs @ drop b ?xs) @ replicate (len s - ?k) z)"
      by (simp only: e2 t)
    also have "\<dots> = take a ?xs @ drop b ?xs" by (rule take_prefix [OF lt])
    finally show ?thesis .
  qed
  ultimately show ?thesis by blast
qed


lemma go_copy_within:
  assumes "wf_slice h s" "a \<le> len s" "b \<le> len s"
  defines "n \<equiv> min (len s - a) (len s - b)"
  defines "h1 \<equiv> go_copy \<lparr>ptr = ptr s, off = off s + a, len = len s - a, cap = cap s - a\<rparr>
                         \<lparr>ptr = ptr s, off = off s + b, len = len s - b, cap = cap s - b\<rparr> h"
  shows "wf_slice h1 s"
    and "elems h1 s = take a (elems h s) @ take n (drop b (elems h s)) @ drop (a + n) (elems h s)"
proof -
  let ?vs = "take n (drop b (elems h s))"
  have lx: "length (elems h s) = len s" using assms(1) by (rule length_elems)
  have lv: "length ?vs = n" using lx assms(2,3) by (simp add: n_def)
  have h1: "h1 = write_at s a ?vs h" unfolding h1_def n_def by (rule go_copy_tails)
  have w: "a + length ?vs \<le> len s" unfolding lv n_def using assms(2) by simp
  have c: "a + length ?vs \<le> cap s" using w assms(1) by (simp add: wf_slice_def)
  show "wf_slice h1 s" unfolding h1 using assms(1) c by (rule wf_write_at)
  have "elems h1 s = take a (elems h s) @ ?vs @ drop (a + length ?vs) (elems h s)"
    unfolding h1 using assms(1) w by (rule elems_write_at_inside)
  then show "elems h1 s = take a (elems h s) @ ?vs @ drop (a + n) (elems h s)"
    by (simp only: lv)
qed

lemma Delete_nat:
  assumes "wf_slice h s" "i < len s"
  shows "\<exists>r h'. Delete z s (int i) h = (Inr r, h') \<and> len r = len s - 1 \<and>
                elems h' r = take i (elems h s) @ drop (Suc i) (elems h s)"
proof -
  let ?xs = "elems h s"
  let ?dst = "\<lparr>ptr = ptr s, off = off s + i, len = len s - i, cap = cap s - i\<rparr>"
  let ?src = "\<lparr>ptr = ptr s, off = off s + Suc i, len = len s - Suc i, cap = cap s - Suc i\<rparr>"
  let ?h1 = "go_copy ?dst ?src h"
  let ?h2 = "write_at s (len s - 1) [z] ?h1"
  let ?r = "\<lparr>ptr = ptr s, off = off s, len = len s - 1, cap = cap s\<rparr>"
  have lc: "len s \<le> cap s" using assms(1) by (simp add: wf_slice_def)
  have lx: "length ?xs = len s" using assms(1) by (rule length_elems)
  have i: "i \<le> len s" "Suc i \<le> len s" using assms(2) by simp_all
  have n: "min (len s - i) (len s - Suc i) = len s - Suc i" by simp
  have wf1: "wf_slice ?h1 s" using assms(1) i by (rule go_copy_within(1))
  have "elems ?h1 s = take i ?xs @ take (len s - Suc i) (drop (Suc i) ?xs) @ drop (i + (len s - Suc i)) ?xs"
    using go_copy_within(2) [OF assms(1) i] by (simp only: n)
  then have e1: "elems ?h1 s = (take i ?xs @ drop (Suc i) ?xs) @ drop (len s - 1) ?xs"
    using lx assms(2) by simp
  have l1: "length (take i ?xs @ drop (Suc i) ?xs) = len s - 1" using lx assms(2) by simp
  have w: "(len s - 1) + length [z] \<le> len s" using assms(2) by simp
  have e2: "elems ?h2 s = take (len s - 1) (elems ?h1 s) @ [z] @ drop (len s - 1 + length [z]) (elems ?h1 s)"
    using wf1 w by (rule elems_write_at_inside)
  have t: "take (len s - 1) (elems ?h1 s) = take i ?xs @ drop (Suc i) ?xs"
    unfolding e1 by (rule take_prefix [OF l1])
  have r1: "reslice s (int i) (int (len s)) = Inr ?dst"
    using lc i(1) by (rule reslice_tail)
  have r2: "reslice s (int i + 1) (int (len s)) = Inr ?src"
    using reslice_tail [OF lc i(2)] by (simp add: add.commute)
  have iw: "index_write s (int (len s) - 1) z ?h1 = Inr ?h2"
    using index_write_ok [of "len s - 1" s z ?h1] assms(2) by (simp add: algebra_simps)
  have r3: "reslice s 0 (int (len s) - 1) = Inr ?r"
    using reslice_head [of "len s - 1" s] lc assms(2) by (simp add: algebra_simps)
  have "Delete z s (int i) h = (Inr ?r, ?h2)"
    by (simp only: Delete_def r1 r2 iw r3 sum.case)
  moreover have "len ?r = len s - 1" by simp
  moreover have "elems ?h2 ?r = take i ?xs @ drop (Suc i) ?xs"
  proof -
    have "elems ?h2 ?r = take (len s - 1) (elems ?h2 s)"
      by (rule elems_head) simp
    also have "\<dots> = take (len s - 1) ((take i ?xs @ drop (Suc i) ?xs) @ [z] @ drop (len s - 1 + length [z]) (elems ?h1 s))"
      by (simp only: e2 t append_assoc)
    also have "\<dots> = take i ?xs @ drop (Suc i) ?xs" by (rule take_prefix [OF l1])
    finally show ?thesis .
  qed
  ultimately show ?thesis by blast
qed

lemma go_append_ok:
  assumes "wf_slice h s" "go_append z slack s vs h = (s1, h1)"
  shows "wf_slice h1 s1" and "len s1 = len s + length vs"
    and "elems h1 s1 = elems h s @ vs"
    and "wf_slice h1 s" and "elems h1 s = elems h s"
proof -
  have lx: "length (elems h s) = len s" using assms(1) by (rule length_elems)
  have p: "cap s = 0 \<or> ptr s < length h" using assms(1) by (auto simp add: wf_slice_def)
  have l0: "cap s = 0 \<Longrightarrow> len s = 0" using assms(1) by (simp add: wf_slice_def)
  show "len s1 = len s + length vs"
    using assms(2) by (auto simp add: go_append_def split: if_splits)
  show "wf_slice h1 s" 
  proof (cases "len s + length vs \<le> cap s")
    case True
    then have "h1 = write_at s (len s) vs h" using assms(2) by (simp add: go_append_def)
    then show ?thesis using wf_write_at [OF assms(1) True] by simp
  next
    case False
    then have "h1 = h @ [elems h s @ vs @ replicate (slack (cap s)) z]"
      using assms(2) by (simp add: go_append_def)
    then show ?thesis using assms(1) by (auto simp add: wf_slice_def nth_append)
  qed
  show "elems h1 s = elems h s"
  proof (cases "len s + length vs \<le> cap s")
    case True
    then have "h1 = write_at s (len s) vs h" using assms(2) by (simp add: go_append_def)
    then show ?thesis using elems_write_at_outside [OF assms(1), of "len s" vs] by simp
  next
    case False
    then have "h1 = h @ [elems h s @ vs @ replicate (slack (cap s)) z]"
      using assms(2) by (simp add: go_append_def)
    then show ?thesis using p l0 by (auto simp add: elems_def nth_append)
  qed
  show "wf_slice h1 s1"
  proof (cases "len s + length vs \<le> cap s")
    case True
    then have "h1 = write_at s (len s) vs h" "s1 = s\<lparr>len := len s + length vs\<rparr>"
      using assms(2) by (simp_all add: go_append_def)
    then show ?thesis using assms(1) True by (auto simp add: wf_slice_def write_at_def)
  next
    case False
    then have "h1 = h @ [elems h s @ vs @ replicate (slack (cap s)) z]"
      "s1 = \<lparr>ptr = length h, off = 0, len = len s + length vs,
              cap = len s + length vs + slack (cap s)\<rparr>"
      using assms(2) by (simp_all add: go_append_def)
    then show ?thesis using lx by (simp add: wf_slice_def)
  qed
  show "elems h1 s1 = elems h s @ vs"
  proof (cases "len s + length vs \<le> cap s")
    case True
    let ?s1 = "s\<lparr>len := len s + length vs\<rparr>"
    have eq: "h1 = write_at ?s1 (len s) vs h" "s1 = ?s1"
      using assms(2) True by (auto simp add: go_append_def write_at_def)
    have wf': "wf_slice h ?s1" using assms(1) True by (auto simp add: wf_slice_def)
    have "elems h1 s1 = take (len s) (elems h ?s1) @ vs @ drop (len s + length vs) (elems h ?s1)"
      unfolding eq using wf' by (rule elems_write_at_inside) simp
    moreover have "take (len s) (elems h ?s1) = elems h s"
      by (simp add: elems_def min_def)
    moreover have "drop (len s + length vs) (elems h ?s1) = []"
      by (simp add: elems_def)
    ultimately show ?thesis by simp
  next
    case False
    then have "h1 = h @ [elems h s @ vs @ replicate (slack (cap s)) z]"
      "s1 = \<lparr>ptr = length h, off = 0, len = len s + length vs,
              cap = len s + length vs + slack (cap s)\<rparr>"
      using assms(2) by (simp_all add: go_append_def)
    then show ?thesis using lx by (simp add: elems_def)
  qed
qed

lemma Insert_nat:
  assumes "wf_slice h s" "i \<le> len s"
  shows "\<exists>s1 h'. Insert z slack s e (int i) h = (Inr s1, h') \<and> wf_slice h' s1 \<and>
                 len s1 = len s + 1 \<and>
                 elems h' s1 = take i (elems h s) @ [e] @ drop i (elems h s)"
proof -
  let ?xs = "elems h s"
  obtain s1 h1 where ga: "go_append z slack s [z] h = (s1, h1)"
    by (cases "go_append z slack s [z] h") blast
  have wf1: "wf_slice h1 s1" and l1: "len s1 = len s + 1" and e1: "elems h1 s1 = ?xs @ [z]"
    using go_append_ok(1-3) [OF assms(1) ga] by simp_all
  have lx: "length ?xs = len s" using assms(1) by (rule length_elems)
  have lc: "len s1 \<le> cap s1" using wf1 by (simp add: wf_slice_def)
  let ?dst = "\<lparr>ptr = ptr s1, off = off s1 + Suc i, len = len s1 - Suc i, cap = cap s1 - Suc i\<rparr>"
  let ?src = "\<lparr>ptr = ptr s1, off = off s1 + i, len = len s1 - i, cap = cap s1 - i\<rparr>"
  let ?h2 = "go_copy ?dst ?src h1"
  let ?h3 = "write_at s1 i [e] ?h2"
  have i: "Suc i \<le> len s1" "i \<le> len s1" using assms(2) l1 by simp_all
  have n: "min (len s1 - Suc i) (len s1 - i) = len s - i" using l1 by simp
  have wf2: "wf_slice ?h2 s1" using wf1 i by (rule go_copy_within(1))
  have "elems ?h2 s1 = take (Suc i) (?xs @ [z]) @ take (len s - i) (drop i (?xs @ [z]))
                        @ drop (Suc i + (len s - i)) (?xs @ [z])"
    using go_copy_within(2) [OF wf1 i] by (simp only: n e1)
  then have e2: "elems ?h2 s1 = take (Suc i) (?xs @ [z]) @ drop i ?xs"
    using lx assms(2) by simp
  have lt: "length (take (Suc i) (?xs @ [z])) = Suc i" using lx assms(2) by simp
  have w: "i + length [e] \<le> len s1" using i by simp
  have c: "i + length [e] \<le> cap s1" using w lc by simp
  have wf3: "wf_slice ?h3 s1" using wf2 c by (rule wf_write_at)
  have "elems ?h3 s1 = take i (elems ?h2 s1) @ [e] @ drop (i + length [e]) (elems ?h2 s1)"
    using wf2 w by (rule elems_write_at_inside)
  moreover have "take i (elems ?h2 s1) = take i ?xs"
    unfolding e2 using lx assms(2) by (simp add: min_def)
  moreover have "drop (i + length [e]) (elems ?h2 s1) = drop i ?xs"
    unfolding e2 using lt by simp
  ultimately have e3: "elems ?h3 s1 = take i ?xs @ [e] @ drop i ?xs" by simp
  have r1: "reslice s1 (int i + 1) (int (len s1)) = Inr ?dst"
    using reslice_tail [OF lc i(1)] by (simp add: add.commute)
  have r2: "reslice s1 (int i) (int (len s1)) = Inr ?src"
    using lc i(2) by (rule reslice_tail)
  have iw: "index_write s1 (int i) e ?h2 = Inr ?h3"
    using i(1) by (intro index_write_ok) simp
  have "Insert z slack s e (int i) h = (Inr s1, ?h3)"
    by (simp only: Insert_def ga r1 r2 iw sum.case prod.case)
  then show ?thesis using wf3 l1 e3 by blast
qed

subsection \<open>Where the bounds checks stop a call\<close>

lemma reslice_panics:
  "lo < 0 \<or> hi < lo \<or> int (cap s) < hi \<Longrightarrow> reslice s lo hi = Inl PanicSliceBounds"
  by (auto simp add: reslice_def)

lemma reslice_Inl: "reslice s lo hi = Inl p \<Longrightarrow> p = PanicSliceBounds"
  by (simp add: reslice_def split: if_splits)

lemma Cut_bad_index:
  assumes "start < 0 \<or> end < 0 \<or> int (len s) < start \<or> int (len s) < end"
  shows "Cut z s start end h = (Inl PanicSliceBounds, h)"
proof (cases "start < 0 \<or> int (len s) < start")
  case True
  then have "reslice s start (int (len s)) = Inl PanicSliceBounds"
    by (intro reslice_panics) auto
  then show ?thesis by (simp add: Cut_def)
next
  case False
  then have "end < 0 \<or> int (len s) < end" using assms by auto
  then have "reslice s end (int (len s)) = Inl PanicSliceBounds"
    by (intro reslice_panics) auto
  then show ?thesis by (auto simp add: Cut_def split: sum.split dest: reslice_Inl)
qed

lemma Cut_reversed:
  assumes "len s \<le> cap s" "0 \<le> end" "end < start" "start \<le> int (len s)"
  shows "Cut z s start end h =
         (let dst = \<lparr>ptr = ptr s, off = off s + nat start, len = len s - nat start, cap = cap s - nat start\<rparr>;
              src = \<lparr>ptr = ptr s, off = off s + nat end, len = len s - nat end, cap = cap s - nat end\<rparr>;
              h1 = go_copy dst src h
          in (reslice s 0 (int (len s) - end + start), h1))"
proof -
  have a: "nat start \<le> len s" "nat end \<le> len s" using assms by simp_all
  have r1: "reslice s start (int (len s)) =
            Inr \<lparr>ptr = ptr s, off = off s + nat start, len = len s - nat start, cap = cap s - nat start\<rparr>"
    using reslice_tail [OF assms(1) a(1)] assms by simp
  have r2: "reslice s end (int (len s)) =
            Inr \<lparr>ptr = ptr s, off = off s + nat end, len = len s - nat end, cap = cap s - nat end\<rparr>"
    using reslice_tail [OF assms(1) a(2)] assms by simp
  have l: "\<And>g. Cut_loop z s (int (len s) - end + start) (int (len s)) g = (Inr (), g)"
    using assms by (intro Cut_loop_done) simp
  show ?thesis
    by (simp add: Cut_def r1 r2 l Let_def split: sum.split)
qed

lemma Delete_bad_index:
  assumes "index < 0 \<or> int (len s) \<le> index"
  shows "Delete z s index h = (Inl PanicSliceBounds, h)"
proof (cases "index < 0 \<or> int (len s) < index")
  case True
  then have "reslice s index (int (len s)) = Inl PanicSliceBounds"
    by (intro reslice_panics) auto
  then show ?thesis by (simp add: Delete_def)
next
  case False
  then have "int (len s) < index + 1" using assms by auto
  then have "reslice s (index + 1) (int (len s)) = Inl PanicSliceBounds"
    by (intro reslice_panics) auto
  then show ?thesis by (auto simp add: Delete_def split: sum.split dest: reslice_Inl)
qed

lemma Insert_bad_index:
  assumes "wf_slice h s" "index < 0 \<or> int (len s) < index"
  shows "fst (Insert z slack s e index h) = Inl PanicSliceBounds \<and>
         elems (snd (Insert z slack s e index h)) s = elems h s"
proof -
  obtain s1 h1 where ga: "go_append z slack s [z] h = (s1, h1)"
    by (cases "go_append z slack s [z] h") blast
  have l1: "len s1 = len s + 1" and e1: "elems h1 s = elems h s"
    using go_append_ok(2,5) [OF assms(1) ga] by simp_all
  have "Insert z slack s e index h = (Inl PanicSliceBounds, h1)"
  proof (cases "index + 1 < 0 \<or> int (len s1) < index + 1")
    case True
    then have "reslice s1 (index + 1) (int (len s1)) = Inl PanicSliceBounds"
      by (intro reslice_panics) auto
    then show ?thesis by (simp add: Insert_def ga)
  next
    case False
    then have "index < 0" using assms(2) l1 by auto
    then have "reslice s1 index (int (len s1)) = Inl PanicSliceBounds"
      by (intro reslice_panics) auto
    then show ?thesis by (auto simp add: Insert_def ga split: sum.split dest: reslice_Inl)
  qed
  then show ?thesis using e1 by simp
qed

subsection \<open>The stack methods as seen by the caller\<close>

text \<open>The caller keeps its own header \<open>s\<close>; what it sees after a call is \<open>elems\<close> of the heap
  the method leaves behind, under that same header.\<close>

lemma Push_caller_view:
  assumes "wf_slice h s"
  shows "elems (Push z slack s e h) s = elems h s"
proof -
  obtain s1 h1 where ga: "go_append z slack s [e] h = (s1, h1)"
    by (cases "go_append z slack s [e] h") blast
  show ?thesis using go_append_ok(5) [OF assms ga] by (simp add: Push_def ga)
qed

lemma Unshift_caller_view:
  assumes "wf_slice h s"
  shows "elems (Unshift z slack s e h) s = elems h s"
  using assms
  by (auto simp add: Unshift_def literal_def go_append_def write_at_def elems_def wf_slice_def
        nth_append)

lemma Pop_heap: "snd (Pop ord s h) = h"
  by (simp add: Pop_def split: sum.split operand_order.split)

lemma Shift_heap: "snd (Shift ord s h) = h"
  by (simp add: Shift_def split: sum.split operand_order.split)

section \<open>Array utilities: removing a range\<close>

text \<open>
  C4. For a well-formed slice and indices with \<open>0 \<le> start \<le> end \<le> len(s)\<close>, \<open>Cut\<close> returns
  (it does not panic) a slice whose length is \<open>len(s) - (end - start)\<close> and whose elements are
  the elements of \<open>s\<close> before \<open>start\<close> followed by those from \<open>end\<close> on: every element outside
  \<open>[start, end)\<close> is kept, in the same relative order.
\<close>

theorem Cut_keeps_outside:
  assumes "wf_slice h s" "0 \<le> start" "start \<le> end" "end \<le> int (len s)"
  shows "\<exists>r h'. Cut z s start end h = (Inr r, h') \<and>
                int (len r) = int (len s) - (end - start) \<and>
                elems h' r = take (nat start) (elems h s) @ drop (nat end) (elems h s)"
proof -
  have a: "nat start \<le> nat end" "nat end \<le> len s" using assms by simp_all
  have i: "int (nat start) = start" "int (nat end) = end" using assms by simp_all
  obtain r h' where c: "Cut z s (int (nat start)) (int (nat end)) h = (Inr r, h')"
    and l: "len r = len s - (nat end - nat start)"
    and e: "elems h' r = take (nat start) (elems h s) @ drop (nat end) (elems h s)"
    using Cut_nat [OF assms(1) a] by blast
  have "int (len r) = int (len s) - (end - start)"
    unfolding l using assms by simp
  then show ?thesis using c e unfolding i by blast
qed

theorem Cut_keeps_outside_witness:
  "wf_slice [[1, 2, 3, 4, 5 :: int]] \<lparr>ptr = 0, off = 0, len = 5, cap = 5\<rparr> \<and>
   (\<exists>r h'. Cut 0 \<lparr>ptr = 0, off = 0, len = 5, cap = 5\<rparr> 1 3 [[1, 2, 3, 4, 5 :: int]] = (Inr r, h') \<and>
            int (len r) = 3 \<and> elems h' r = [1, 4, 5])"
  using Cut_keeps_outside [of "[[1, 2, 3, 4, 5 :: int]]" "\<lparr>ptr = 0, off = 0, len = 5, cap = 5\<rparr>" 1 3 0]
  by (simp add: wf_slice_def elems_def)

section \<open>Array utilities: insert then delete\<close>

text \<open>
  C5. For a well-formed slice and an index with \<open>0 \<le> index \<le> len(s)\<close>, \<open>Insert\<close> returns a
  slice, \<open>Delete\<close> at the same index on that slice returns a slice as well, and the elements of
  the final slice are the elements \<open>s\<close> had at the start (and so is its length).
\<close>

theorem Delete_after_Insert:
  assumes "wf_slice h s" "0 \<le> index" "index \<le> int (len s)"
  shows "\<exists>s1 h1 r h2. Insert z slack s e index h = (Inr s1, h1) \<and>
                      Delete z s1 index h1 = (Inr r, h2) \<and>
                      len r = len s \<and> elems h2 r = elems h s"
proof -
  let ?i = "nat index"
  have i: "?i \<le> len s" "int ?i = index" using assms(2,3) by simp_all
  have lx: "length (elems h s) = len s" using assms(1) by (rule length_elems)
  obtain s1 h1 where ins: "Insert z slack s e (int ?i) h = (Inr s1, h1)"
    and wf1: "wf_slice h1 s1" and l1: "len s1 = len s + 1"
    and e1: "elems h1 s1 = take ?i (elems h s) @ [e] @ drop ?i (elems h s)"
    using Insert_nat [OF assms(1) i(1)] by blast
  have i1: "?i < len s1" using i(1) l1 by simp
  obtain r h2 where del: "Delete z s1 (int ?i) h1 = (Inr r, h2)"
    and lr: "len r = len s1 - 1"
    and e2: "elems h2 r = take ?i (elems h1 s1) @ drop (Suc ?i) (elems h1 s1)"
    using Delete_nat [OF wf1 i1] by blast
  have "elems h2 r = elems h s"
    unfolding e2 e1 using lx i(1) by (simp add: min_def)
  then show ?thesis using ins del lr l1 unfolding i(2) by auto
qed

theorem Delete_after_Insert_witness:
  "wf_slice [[1, 2, 3 :: int]] \<lparr>ptr = 0, off = 0, len = 3, cap = 3\<rparr> \<and>
   (\<exists>s1 h1 r h2.
      Insert 0 (\<lambda>c. c) \<lparr>ptr = 0, off = 0, len = 3, cap = 3\<rparr> 9 1 [[1, 2, 3 :: int]] = (Inr s1, h1) \<and>
      Delete 0 s1 1 h1 = (Inr r, h2) \<and> len r = 3 \<and> elems h2 r = [1, 2, 3])"
  using Delete_after_Insert
    [of "[[1, 2, 3 :: int]]" "\<lparr>ptr = 0, off = 0, len = 3, cap = 3\<rparr>" 1 0 "\<lambda>c. c" 9]
  by (simp add: wf_slice_def elems_def)

section \<open>Array utilities: indices outside the contract\<close>

text \<open>
  C8 (as the code has it). \<open>Cut\<close> has no check of its own: it stops exactly where one of
  Go's bounds checks on a slice expression does. For a well-formed slice it panics (slice
  bounds out of range) when an index is negative, when \<open>start\<close> or \<open>end\<close> is greater than
  \<open>len(s)\<close>, or when \<open>len(s) - end + start\<close> is greater than \<open>cap(s)\<close>, which needs
  \<open>start > end\<close>. In every other case, so also when \<open>0 \<le> end < start \<le> len(s)\<close> and the
  capacity allows it, it returns a slice of length \<open>len(s) - end + start\<close>.
\<close>

theorem Cut_panics_exactly_when:
  assumes "wf_slice h s"
  shows "fst (Cut z s start end h) =
     (if start < 0 \<or> end < 0 \<or> int (len s) < start \<or> int (len s) < end \<or>
         int (cap s) < int (len s) - end + start
      then Inl PanicSliceBounds
      else Inr \<lparr>ptr = ptr s, off = off s, len = nat (int (len s) - end + start), cap = cap s\<rparr>)"
proof -
  have lc: "len s \<le> cap s" using assms by (simp add: wf_slice_def)
  consider (bad) "start < 0 \<or> end < 0 \<or> int (len s) < start \<or> int (len s) < end"
    | (ok) "0 \<le> start" "start \<le> end" "end \<le> int (len s)"
    | (rev) "0 \<le> end" "end < start" "start \<le> int (len s)"
    by linarith
  then show ?thesis
  proof cases
    case bad
    then show ?thesis using Cut_bad_index [OF bad, of z h] by auto
  next
    case ok
    have a: "nat start \<le> nat end" "nat end \<le> len s" using ok by simp_all
    have i: "int (nat start) = start" "int (nat end) = end" using ok by simp_all
    obtain r h' where c: "Cut z s (int (nat start)) (int (nat end)) h = (Inr r, h')"
      and r: "r = \<lparr>ptr = ptr s, off = off s, len = len s - nat end + nat start, cap = cap s\<rparr>"
      using Cut_nat [OF assms a] by blast
    have "len s - nat end + nat start = nat (int (len s) - end + start)" using ok by simp
    then show ?thesis using c r ok lc unfolding i by simp
  next
    case rev
    show ?thesis using rev lc by (auto simp add: Cut_reversed [OF lc rev] Let_def reslice_def)
  qed
qed

theorem Cut_panics_exactly_when_witness:
  "wf_slice [[1, 2, 3 :: int]] \<lparr>ptr = 0, off = 0, len = 3, cap = 3\<rparr> \<and>
   fst (Cut 0 \<lparr>ptr = 0, off = 0, len = 3, cap = 3\<rparr> 2 1 [[1, 2, 3 :: int]]) = Inl PanicSliceBounds \<and>
   fst (Cut 0 \<lparr>ptr = 0, off = 0, len = 3, cap = 3\<rparr> 1 4 [[1, 2, 3 :: int]]) = Inl PanicSliceBounds \<and>
   fst (Cut 0 \<lparr>ptr = 0, off = 0, len = 3, cap = 3\<rparr> (- 1) 2 [[1, 2, 3 :: int]]) = Inl PanicSliceBounds"
  using Cut_panics_exactly_when [of "[[1, 2, 3 :: int]]" "\<lparr>ptr = 0, off = 0, len = 3, cap = 3\<rparr>" 0 2 1]
    Cut_panics_exactly_when [of "[[1, 2, 3 :: int]]" "\<lparr>ptr = 0, off = 0, len = 3, cap = 3\<rparr>" 0 1 4]
    Cut_panics_exactly_when [of "[[1, 2, 3 :: int]]" "\<lparr>ptr = 0, off = 0, len = 3, cap = 3\<rparr>" 0 "- 1" 2]
  by (simp add: wf_slice_def)

text \<open>C8 as stated fails: with \<open>start = 2 > end = 1\<close> on a slice of length 3 and capacity 4,
  \<open>Cut\<close> does not panic; it returns a slice of length 4.\<close>

theorem Cut_reversed_range_returns:
  "Cut 0 \<lparr>ptr = 0, off = 0, len = 3, cap = 4\<rparr> 2 1 [[1, 2, 3, 9 :: int]] =
     (Inr \<lparr>ptr = 0, off = 0, len = 4, cap = 4\<rparr>, [[1, 2, 2, 9]])"
  by (simp add: Cut_def reslice_def go_copy_def write_at_def elems_def Cut_loop.simps)

text \<open>
  C9 (as the code has it). For a well-formed slice, \<open>Delete\<close> with an index outside
  \<open>0 \<le> index < len(s)\<close> and \<open>Cut\<close> with a negative index or with \<open>start\<close> or \<open>end\<close> greater than
  \<open>len(s)\<close> panic and leave the whole heap as it was; \<open>Insert\<close> with an index outside
  \<open>0 \<le> index \<le> len(s)\<close> panics after its \<^verbatim>\<open>append\<close>, which writes behind the slice or into a
  new array only, so the elements of the input slice are as they were.
\<close>

theorem invalid_index_leaves_elements:
  assumes "wf_slice h s"
  shows "((index < 0 \<or> int (len s) \<le> index) \<longrightarrow>
            Delete z s index h = (Inl PanicSliceBounds, h)) \<and>
         ((index < 0 \<or> int (len s) < index) \<longrightarrow>
            fst (Insert z slack s e index h) = Inl PanicSliceBounds \<and>
            elems (snd (Insert z slack s e index h)) s = elems h s) \<and>
         ((start < 0 \<or> end < 0 \<or> int (len s) < start \<or> int (len s) < end) \<longrightarrow>
            Cut z s start end h = (Inl PanicSliceBounds, h))"
  using Delete_bad_index [of index s z h] Insert_bad_index [OF assms, of index z slack e]
    Cut_bad_index [of start "end" s z h]
  by blast

theorem invalid_index_leaves_elements_witness:
  "wf_slice [[1, 2, 3 :: int]] \<lparr>ptr = 0, off = 0, len = 3, cap = 3\<rparr> \<and>
   Delete 0 \<lparr>ptr = 0, off = 0, len = 3, cap = 3\<rparr> 4 [[1, 2, 3 :: int]] =
     (Inl PanicSliceBounds, [[1, 2, 3]]) \<and>
   fst (Insert 0 (\<lambda>c. c) \<lparr>ptr = 0, off = 0, len = 3, cap = 3\<rparr> 9 4 [[1, 2, 3 :: int]]) =
     Inl PanicSliceBounds \<and>
   elems (snd (Insert 0 (\<lambda>c. c) \<lparr>ptr = 0, off = 0, len = 3, cap = 3\<rparr> 9 4 [[1, 2, 3 :: int]]))
     \<lparr>ptr = 0, off = 0, len = 3, cap = 3\<rparr> = [1, 2, 3] \<and>
   Cut 0 \<lparr>ptr = 0, off = 0, len = 3, cap = 3\<rparr> 1 4 [[1, 2, 3 :: int]] =
     (Inl PanicSliceBounds, [[1, 2, 3]])"
  using invalid_index_leaves_elements
    [of "[[1, 2, 3 :: int]]" "\<lparr>ptr = 0, off = 0, len = 3, cap = 3\<rparr>" 4 0 "\<lambda>c. c" 9 1 4]
  by (simp add: wf_slice_def elems_def)

text \<open>C9 as stated fails for \<open>Cut\<close> with \<open>0 \<le> end < start \<le> len(s)\<close>: on \<open>[1, 2, 3]\<close> with
  capacity 3, \<open>start = 2\<close> and \<open>end = 1\<close>, the copy overwrites the third element before the
  final slice expression panics.\<close>

theorem Cut_reversed_range_overwrites:
  "Cut 0 \<lparr>ptr = 0, off = 0, len = 3, cap = 3\<rparr> 2 1 [[1, 2, 3 :: int]] =
     (Inl PanicSliceBounds, [[1, 2, 2]]) \<and>
   elems [[1, 2, 2]] \<lparr>ptr = 0, off = 0, len = 3, cap = 3\<rparr> \<noteq>
   elems [[1, 2, 3 :: int]] \<lparr>ptr = 0, off = 0, len = 3, cap = 3\<rparr>"
  by (simp add: Cut_def reslice_def go_copy_def write_at_def elems_def Cut_loop.simps)

section \<open>Stack methods and the caller\<close>

text \<open>
  C1. The four methods leave the stack their caller holds as it was. On the caller's stack
  \<open>[1, 2]\<close>, after \<open>Push 3\<close> (with or without spare capacity) and after \<open>Unshift 3\<close> the caller's
  stack still is \<open>[1, 2]\<close>: its length has not grown and 3 is neither its last nor its first
  element. \<open>Pop\<close> returns 2 and \<open>Shift\<close> returns 1 (in either order of evaluation), and after
  either the caller's stack still is \<open>[1, 2]\<close>: its length has not decreased.
\<close>

theorem Stack_methods_leave_caller_stack:
  "elems (Push 0 slack \<lparr>ptr = 0, off = 0, len = 2, cap = 2\<rparr> 3 [[1, 2 :: int]])
         \<lparr>ptr = 0, off = 0, len = 2, cap = 2\<rparr> = [1, 2] \<and>
   elems (Push 0 slack \<lparr>ptr = 0, off = 0, len = 2, cap = 3\<rparr> 3 [[1, 2, 0 :: int]])
         \<lparr>ptr = 0, off = 0, len = 2, cap = 3\<rparr> = [1, 2] \<and>
   elems (Unshift 0 slack \<lparr>ptr = 0, off = 0, len = 2, cap = 2\<rparr> 3 [[1, 2 :: int]])
         \<lparr>ptr = 0, off = 0, len = 2, cap = 2\<rparr> = [1, 2] \<and>
   fst (Pop ord \<lparr>ptr = 0, off = 0, len = 2, cap = 2\<rparr> [[1, 2 :: int]]) = Inr 2 \<and>
   elems (snd (Pop ord \<lparr>ptr = 0, off = 0, len = 2, cap = 2\<rparr> [[1, 2 :: int]]))
         \<lparr>ptr = 0, off = 0, len = 2, cap = 2\<rparr> = [1, 2] \<and>
   fst (Shift ord \<lparr>ptr = 0, off = 0, len = 2, cap = 2\<rparr> [[1, 2 :: int]]) = Inr 1 \<and>
   elems (snd (Shift ord \<lparr>ptr = 0, off = 0, len = 2, cap = 2\<rparr> [[1, 2 :: int]]))
         \<lparr>ptr = 0, off = 0, len = 2, cap = 2\<rparr> = [1, 2]"
  by (cases ord)
     (simp_all add: Push_def Unshift_def Pop_def Shift_def literal_def go_append_def write_at_def
        elems_def index_read_def reslice_def)

text \<open>
  C7. On a stack of length 0, \<open>Pop\<close> and \<open>Shift\<close> fail and return no element, in either order
  of evaluation: the operand that is evaluated first panics. In the order of the compiled code
  that is the slice expression (\<^verbatim>\<open>s[:len(s)-1]\<close>, \<^verbatim>\<open>s[1:]\<close>) with
  \<^verbatim>\<open>slice bounds out of range\<close>; in the written order it is the index expression
  (\<^verbatim>\<open>s[len(s)-1]\<close>, \<^verbatim>\<open>s[0]\<close>) with \<^verbatim>\<open>index out of range\<close>. The heap is left as it was.
\<close>

theorem Pop_Shift_empty_panic:
  assumes "len s = 0"
  shows "Pop ord s h =
           (Inl (case ord of IndexFirst \<Rightarrow> PanicIndex | SliceFirst \<Rightarrow> PanicSliceBounds), h) \<and>
         Shift ord s h =
           (Inl (case ord of IndexFirst \<Rightarrow> PanicIndex | SliceFirst \<Rightarrow> PanicSliceBounds), h)"
  using assms
  by (cases ord) (simp_all add: Pop_def Shift_def index_read_def reslice_def)

theorem Pop_Shift_empty_panic_witness:
  "len \<lparr>ptr = 0, off = 0, len = 0, cap = 0\<rparr> = 0 \<and>
   Pop SliceFirst \<lparr>ptr = 0, off = 0, len = 0, cap = 0\<rparr> ([] :: int heap) =
     (Inl PanicSliceBounds, []) \<and>
   Shift SliceFirst \<lparr>ptr = 0, off = 0, len = 0, cap = 0\<rparr> ([] :: int heap) =
     (Inl PanicSliceBounds, []) \<and>
   Pop IndexFirst \<lparr>ptr = 0, off = 0, len = 0, cap = 0\<rparr> ([] :: int heap) =
     (Inl PanicIndex, []) \<and>
   Shift IndexFirst \<lparr>ptr = 0, off = 0, len = 0, cap = 0\<rparr> ([] :: int heap) =
     (Inl PanicIndex, [])"
  using Pop_Shift_empty_panic [of "\<lparr>ptr = 0, off = 0, len = 0, cap = 0\<rparr>" SliceFirst "[] :: int heap"]
    Pop_Shift_empty_panic [of "\<lparr>ptr = 0, off = 0, len = 0, cap = 0\<rparr>" IndexFirst "[] :: int heap"]
  by simp

section \<open>Grid bounds\<close>

text \<open>
  C3. On a grid of 3 rows of 4 columns \<open>InBounds\<close> answers false for the coordinates
  \<open>(0,0)\<close> and \<open>(0,2)\<close> (x = 0, y = 0 and y = 2), which lie inside the grid: the comparisons
  are \<open>y > 0\<close> and \<open>x > 0\<close>. It answers true for \<open>(3,2)\<close> and false for \<open>(4,0)\<close>, \<open>(0,3)\<close>
  and \<open>(-1,0)\<close>.
\<close>

theorem InBounds_rejects_row_and_column_zero:
  "InBounds [[0, 0, 0, 0], [0, 0, 0, 0], [0, 0, 0, 0 :: int]] (Coordinate 0 0) = Inr False \<and>
   InBounds [[0, 0, 0, 0], [0, 0, 0, 0], [0, 0, 0, 0 :: int]] (Coordinate 0 2) = Inr False \<and>
   InBounds [[0, 0, 0, 0], [0, 0, 0, 0], [0, 0, 0, 0 :: int]] (Coordinate 3 2) = Inr True \<and>
   InBounds [[0, 0, 0, 0], [0, 0, 0, 0], [0, 0, 0, 0 :: int]] (Coordinate 4 0) = Inr False \<and>
   InBounds [[0, 0, 0, 0], [0, 0, 0, 0], [0, 0, 0, 0 :: int]] (Coordinate 0 3) = Inr False \<and>
   InBounds [[0, 0, 0, 0], [0, 0, 0, 0], [0, 0, 0, 0 :: int]] (Coordinate (- 1) 0) = Inr False"
  by (simp add: row_at_def)

text \<open>
  C10. On a grid without rows \<open>InBounds\<close> returns false for every coordinate and does not
  panic: \<^verbatim>\<open>grid[0]\<close> is only evaluated after \<^verbatim>\<open>coord.y < len(grid)\<close> has held.
\<close>

theorem InBounds_no_rows: "InBounds [] c = Inr False"
  by (cases c) simp

theorem InBounds_no_rows_witness: "InBounds ([] :: int Grid) (Coordinate 5 7) = Inr False"
  using InBounds_no_rows [of "Coordinate 5 7"] by simp

section \<open>Tree enumeration\<close>

text \<open>
  C2. \<open>GetNodes\<close> of a node is the node itself, followed by the enumeration of its next
  sibling when that link is present, followed by the enumeration of its first child when that
  link is present.
\<close>

theorem GetNodes_node_sibling_child:
  "GetNodes n =
     n # (case nextSibling n of None \<Rightarrow> [] | Some sib \<Rightarrow> GetNodes sib)
       @ (case firstChild n of None \<Rightarrow> [] | Some child \<Rightarrow> GetNodes child)"
  by (cases n) (simp split: option.split)

theorem GetNodes_node_sibling_child_witness:
  "GetNodes (TreeNode (1 :: int) (Some (TreeNode 2 None None)) (Some (TreeNode 3 None None))) =
     [TreeNode 1 (Some (TreeNode 2 None None)) (Some (TreeNode 3 None None)),
      TreeNode 3 None None, TreeNode 2 None None]"
  using GetNodes_node_sibling_child
    [of "TreeNode (1 :: int) (Some (TreeNode 2 None None)) (Some (TreeNode 3 None None))"]
  by simp

text \<open>
  C6 (as the code has it). For the root R with \<open>firstChild = A\<close>, where A has
  \<open>nextSibling = B\<close> and \<open>firstChild = C\<close> and there are no other links, \<open>GetNodes\<close> of R is
  \<open>[R, A, B, C]\<close>: the sibling B of A comes before the child C of A.
\<close>

theorem GetNodes_example_sibling_first:
  "GetNodes (TreeNode r (Some (TreeNode a (Some (TreeNode c None None)) (Some (TreeNode b None None)))) None) =
     [TreeNode r (Some (TreeNode a (Some (TreeNode c None None)) (Some (TreeNode b None None)))) None,
      TreeNode a (Some (TreeNode c None None)) (Some (TreeNode b None None)),
      TreeNode b None None,
      TreeNode c None None]"
  by simp

theorem GetNodes_example_sibling_first_witness:
  "GetNodes (TreeNode ''R'' (Some (TreeNode ''A'' (Some (TreeNode ''C'' None None)) (Some (TreeNode ''B'' None None)))) None) =
     [TreeNode ''R'' (Some (TreeNode ''A'' (Some (TreeNode ''C'' None None)) (Some (TreeNode ''B'' None None)))) None,
      TreeNode ''A'' (Some (TreeNode ''C'' None None)) (Some (TreeNode ''B'' None None)),
      TreeNode ''B'' None None,
      TreeNode ''C'' None None]"
  using GetNodes_example_sibling_first [of "''R''" "''A''" "''C''" "''B''"] by simp

text \<open>C6 as stated fails: with the elements R, A, B, C the enumeration of R is not
  \<open>[R, A, C, B]\<close>.\<close>

theorem GetNodes_example_not_child_first:
  "GetNodes (TreeNode ''R'' (Some (TreeNode ''A'' (Some (TreeNode ''C'' None None)) (Some (TreeNode ''B'' None None)))) None) \<noteq>
     [TreeNode ''R'' (Some (TreeNode ''A'' (Some (TreeNode ''C'' None None)) (Some (TreeNode ''B'' None None)))) None,
      TreeNode ''A'' (Some (TreeNode ''C'' None None)) (Some (TreeNode ''B'' None None)),
      TreeNode ''C'' None None,
      TreeNode ''B'' None None]"
  by simp

end
